theory Spec2Isabelle
  imports Complex_Main "HOL-Library.Multiset"
begin

section \<open>Intersection normalisation: data model\<close>

text \<open>
  The embedding follows \<^verbatim>\<open>src/extractor/guidance/intersection_normalizer.cpp\<close>.
  A C++ \<^verbatim>\<open>double\<close> is modelled as a \<^typ>\<open>real\<close>. The functions of the two passes
  compute exactly: the branch structure and the algebra of the angle computations are
  kept, rounding is not modelled. Where a property depends on the rounding itself (the
  case split of \<^verbatim>\<open>combineAngles\<close> at the boundary 180), the functions with the suffix
  \<open>_double\<close> round the result of every arithmetic operation to binary64. Node, edge and name
  identifiers and \<^verbatim>\<open>std::size_t\<close> indices are natural numbers (no arithmetic of the
  source on them comes near the wrap-around of the machine types).
\<close>

type_synonym NodeID = nat
type_synonym EdgeID = nat
type_synonym NameID = nat

text \<open>
  Modelled from the spec: the struct \<^verbatim>\<open>ConnectedRoad\<close> is declared in
  \<^verbatim>\<open>intersection.hpp\<close>, which is not among the sources. The fields are the ones the spec
  lists and the normaliser reads and writes; \<^verbatim>\<open>compareByAngle\<close> is the comparison
  of the \<^verbatim>\<open>angle\<close> fields by \<open><\<close>.
\<close>

record ConnectedRoad =
  eid :: EdgeID
  entry_allowed :: bool
  angle :: real
  bearing :: real

type_synonym Intersection = "ConnectedRoad list"

text \<open>The part of the edge data of the node-based graph that the normaliser reads.\<close>

record EdgeData =
  name_id :: NameID
  roundabout :: bool

record Coordinate =
  lon :: int
  lat :: int

text \<open>
  The collaborators of the class \<^verbatim>\<open>IntersectionNormalizer\<close> (graph accessor, coordinate
  table, name tables, road-merge detector, intersection generator) and the two constants
  \<^verbatim>\<open>EMPTY_NAMEID\<close> and \<^verbatim>\<open>MAXIMAL_ALLOWED_NO_TURN_DEVIATION\<close>, whose declarations
  are not among the sources, are parameters of the model: every theorem below holds for
  all of them unless it says otherwise. \<^verbatim>\<open>requiresNameAnnounced\<close> stands for the call
  with the normaliser's own name table and suffix table.
\<close>

record Normalizer =
  GetEdgeData :: "EdgeID \<Rightarrow> EdgeData"
  GetTarget :: "EdgeID \<Rightarrow> NodeID"
  GetAdjacentEdgeRange :: "NodeID \<Rightarrow> EdgeID list"
  node_coordinates :: "NodeID \<Rightarrow> Coordinate"
  haversineDistance :: "Coordinate \<Rightarrow> Coordinate \<Rightarrow> real"
  requiresNameAnnounced :: "NameID \<Rightarrow> NameID \<Rightarrow> bool"
  CanMergeRoad :: "NodeID \<Rightarrow> ConnectedRoad \<Rightarrow> ConnectedRoad \<Rightarrow> bool"
  intersection_generator :: "NodeID \<Rightarrow> EdgeID \<Rightarrow> Intersection"
  EMPTY_NAMEID :: NameID
  MAXIMAL_ALLOWED_NO_TURN_DEVIATION :: real

section \<open>Angle arithmetic\<close>

text \<open>
  Modelled from the spec: \<^verbatim>\<open>angularDeviation\<close> is defined in
  \<^verbatim>\<open>extractor/guidance/toolkit.hpp\<close>, which is not among the sources. The spec describes
  it as the smallest absolute circular distance between two angles of \<open>[0, 360)\<close>, with a
  result in \<open>[0, 180]\<close>: the smaller of the absolute difference and its complement to 360.
\<close>

definition angularDeviation :: "real \<Rightarrow> real \<Rightarrow> real" where
  "angularDeviation a b = (let deviation = \<bar>a - b\<bar> in min (360 - deviation) deviation)"

text \<open>
  The lambdas \<^verbatim>\<open>aroundZero\<close> and \<^verbatim>\<open>combineAngles\<close>, computing exactly. The source
  compares the rounded difference with 180, so for an exact difference less than
  \<open>2 ^ -45\<close> below 180 it can take the other branch: \<open>aroundZero_double\<close> and
  \<open>combineAngles_double\<close> below are the same lambdas in double arithmetic.
\<close>

definition aroundZero :: "real \<Rightarrow> real \<Rightarrow> bool" where
  "aroundZero first second \<longleftrightarrow> max first second - min first second \<ge> 180"

definition combineAngles :: "real \<Rightarrow> real \<Rightarrow> real" where
  "combineAngles first second =
     (if \<not> aroundZero first second then 0.5 * (first + second)
      else
        (let offset = angularDeviation first second;
             new_angle = max first second + 0.5 * offset
         in if new_angle > 360 then new_angle - 360 else new_angle))"

text \<open>
  The lambda \<^verbatim>\<open>merge\<close>. Its two \<^verbatim>\<open>BOOST_ASSERT\<close>s are compiled out of a release
  build, so the function returns its result in every case; what they assert is the
  predicate \<open>merge_asserts\<close> on the result.
\<close>

definition merge :: "ConnectedRoad \<Rightarrow> ConnectedRoad \<Rightarrow> ConnectedRoad" where
  "merge first second =
     (let result = (if entry_allowed first then first else second)
      in result\<lparr>angle := combineAngles (angle first) (angle second),
                bearing := combineAngles (bearing first) (bearing second)\<rparr>)"

definition merge_asserts :: "ConnectedRoad \<Rightarrow> bool" where
  "merge_asserts result \<longleftrightarrow>
     0 \<le> angle result \<and> angle result \<le> 360 \<and> 0 \<le> bearing result \<and> bearing result \<le> 360"

section \<open>Angle arithmetic in double precision\<close>

text \<open>
  IEEE 754 binary64, rounding to nearest with ties to even: a value is rounded to the
  nearest multiple of the quantum of its binade, \<open>2 ^ (e - 52)\<close> for a value in
  \<open>[2 ^ e, 2 ^ (e + 1))\<close>, with \<open>e\<close> between -1022 (below which the quantum stays
  \<open>2 ^ -1074\<close>: the subnormal numbers) and 1023. Overflow to infinity is not modelled (angles
  stay far below \<open>2 ^ 1024\<close>), nor are infinities and NaN. \<open>binade_up\<close> and
  \<open>binade_down\<close> find the exponent by halving and doubling, at most 1023 and 1022 times.
\<close>

definition pow2 :: "int \<Rightarrow> real" where
  "pow2 e = (if 0 \<le> e then 2 ^ nat e else 1 / 2 ^ nat (- e))"

fun binade_up :: "nat \<Rightarrow> real \<Rightarrow> nat" where
  "binade_up n x = (if n = 0 \<or> x < 2 then 0 else Suc (binade_up (n - 1) (x / 2)))"

fun binade_down :: "nat \<Rightarrow> real \<Rightarrow> nat" where
  "binade_down n x = (if n = 0 \<or> 1 \<le> x then 0 else Suc (binade_down (n - 1) (2 * x)))"

definition exponent :: "real \<Rightarrow> int" where
  "exponent x = (if 1 \<le> x then int (binade_up 1023 x) else - int (binade_down 1022 x))"

definition round_half_even :: "real \<Rightarrow> int" where
  "round_half_even y =
     (let below = \<lfloor>y\<rfloor>; rest = y - of_int below
      in if rest < 1 / 2 then below
         else if 1 / 2 < rest then below + 1
         else if even below then below else below + 1)"

definition round_double :: "real \<Rightarrow> real" where
  "round_double x =
     (if x = 0 then 0
      else
        (let quantum = pow2 (exponent \<bar>x\<bar> - 52)
         in sgn x * (of_int (round_half_even (\<bar>x\<bar> / quantum)) * quantum)))"

text \<open>
  \<^verbatim>\<open>aroundZero\<close> and \<^verbatim>\<open>combineAngles\<close> with every subtraction, addition and
  multiplication of the source rounded (no fused multiply-add, no extended precision);
  \<^verbatim>\<open>std::max\<close>, \<^verbatim>\<open>std::min\<close> and \<^verbatim>\<open>std::abs\<close> are exact.
\<close>

definition aroundZero_double :: "real \<Rightarrow> real \<Rightarrow> bool" where
  "aroundZero_double first second \<longleftrightarrow>
     round_double (max first second - min first second) \<ge> 180"

text \<open>
  Modelled from the spec: \<^verbatim>\<open>angularDeviation\<close>, which is not among the sources, with its
  two subtractions rounded.
\<close>

definition angularDeviation_double :: "real \<Rightarrow> real \<Rightarrow> real" where
  "angularDeviation_double a b =
     (let deviation = \<bar>round_double (a - b)\<bar>
      in min (round_double (360 - deviation)) deviation)"

definition combineAngles_double :: "real \<Rightarrow> real \<Rightarrow> real" where
  "combineAngles_double first second =
     (if \<not> aroundZero_double first second
      then round_double (0.5 * round_double (first + second))
      else
        (let offset = angularDeviation_double first second;
             new_angle = round_double (max first second + round_double (0.5 * offset))
         in if new_angle > 360 then round_double (new_angle - 360) else new_angle))"

section \<open>The mergeability test\<close>

text \<open>
  \<^verbatim>\<open>CanMerge\<close> indexes the intersection twice in its first two statements, before any
  check of the size. \<^verbatim>\<open>operator[]\<close> of a vector is unchecked, so an index outside the
  vector is undefined behaviour: the model returns \<open>None\<close> there.
\<close>

definition CanMerge :: "Normalizer \<Rightarrow> NodeID \<Rightarrow> Intersection \<Rightarrow> nat \<Rightarrow> nat \<Rightarrow> bool option" where
  "CanMerge env node_at_intersection intersection first_index second_index =
     (if \<not> first_index < length intersection then None
      else
        (let first_data = GetEdgeData env (eid (intersection ! first_index))
         in if \<not> second_index < length intersection then None
            else
              (let second_data = GetEdgeData env (eid (intersection ! second_index))
               in if length intersection \<le> 2 then Some False
                  else if name_id first_data = EMPTY_NAMEID env
                          \<or> name_id second_data = EMPTY_NAMEID env then Some False
                  else if requiresNameAnnounced env (name_id first_data) (name_id second_data)
                    then Some False
                  else if \<not> CanMergeRoad env node_at_intersection
                                (intersection ! first_index) (intersection ! second_index)
                    then Some False
                  else Some True)))"

section \<open>Merging segregated roads\<close>

definition getRight :: "Intersection \<Rightarrow> nat \<Rightarrow> nat" where
  "getRight intersection index = (index + length intersection - 1) mod length intersection"

text \<open>\<^verbatim>\<open>intersection.erase(intersection.begin() + index)\<close>\<close>

definition erase :: "Intersection \<Rightarrow> nat \<Rightarrow> Intersection" where
  "erase intersection index = take index intersection @ drop (Suc index) intersection"

fun is_connected_to_roundabout :: "Normalizer \<Rightarrow> Intersection \<Rightarrow> bool" where
  "is_connected_to_roundabout env [] = False"
| "is_connected_to_roundabout env (road # roads) =
     (if roundabout (GetEdgeData env (eid road)) then True
      else is_connected_to_roundabout env roads)"

text \<open>
  The two loops that re-base the angles after a merge with the u-turn:
  \<^verbatim>\<open>for (i = 1; i + 1 < size; ++i) intersection[i].angle += correction_factor\<close> and
  \<^verbatim>\<open>for (i = 2; i < size; ++i) intersection[i].angle -= correction_factor\<close>.
\<close>

function shift_left :: "real \<Rightarrow> nat \<Rightarrow> Intersection \<Rightarrow> Intersection" where
  "shift_left correction_factor i intersection =
     (if i + 1 < length intersection
      then shift_left correction_factor (i + 1)
             (intersection[i := (intersection ! i)
                \<lparr>angle := angle (intersection ! i) + correction_factor\<rparr>])
      else intersection)"
  by pat_completeness auto
termination
  by (relation "measure (\<lambda>(c, i, xs). length xs - i)") auto

function shift_right :: "real \<Rightarrow> nat \<Rightarrow> Intersection \<Rightarrow> Intersection" where
  "shift_right correction_factor i intersection =
     (if i < length intersection
      then shift_right correction_factor (i + 1)
             (intersection[i := (intersection ! i)
                \<lparr>angle := angle (intersection ! i) - correction_factor\<rparr>])
      else intersection)"
  by pat_completeness auto
termination
  by (relation "measure (\<lambda>(c, i, xs). length xs - i)") auto

text \<open>
  The merge with the u-turn (the \<^verbatim>\<open>if\<close> / \<^verbatim>\<open>else if\<close> that sets
  \<^verbatim>\<open>merged_first\<close>): the result is the flag and the intersection after the branch taken.
  The function is entered with at least two roads.
\<close>

definition merge_first :: "Normalizer \<Rightarrow> NodeID \<Rightarrow> Intersection \<Rightarrow> (bool \<times> Intersection) option" where
  "merge_first env intersection_node intersection =
     (case CanMerge env intersection_node intersection 0 (length intersection - 1) of
        None \<Rightarrow> None
      | Some can_last \<Rightarrow>
          if can_last then
            (let correction_factor = (360 - angle (intersection ! (length intersection - 1))) / 2;
                 shifted = shift_left correction_factor 1 intersection;
                 merged = shifted[0 := merge (shifted ! 0) (shifted ! (length shifted - 1))];
                 zeroed = merged[0 := (merged ! 0)\<lparr>angle := 0\<rparr>]
             in Some (True, butlast zeroed))
          else
            (case CanMerge env intersection_node intersection 0 1 of
               None \<Rightarrow> None
             | Some can_first \<Rightarrow>
                 if can_first then
                   (let correction_factor = angle (intersection ! 1) / 2;
                        shifted = shift_right correction_factor 2 intersection;
                        merged = shifted[0 := merge (shifted ! 0) (shifted ! 1)];
                        zeroed = merged[0 := (merged ! 0)\<lparr>angle := 0\<rparr>]
                    in Some (True, erase zeroed 1))
                 else Some (False, intersection)))"

text \<open>
  The general pass: \<^verbatim>\<open>for (index = 2; index < size; ++index)\<close>; after a merge the
  source decrements \<^verbatim>\<open>index\<close>, so the same position is tested again.
\<close>

function merge_loop :: "Normalizer \<Rightarrow> NodeID \<Rightarrow> nat \<Rightarrow> Intersection \<Rightarrow> Intersection option" where
  "merge_loop env intersection_node index intersection =
     (if index < length intersection then
        (case CanMerge env intersection_node intersection index (getRight intersection index) of
           None \<Rightarrow> None
         | Some can \<Rightarrow>
             if can then
               merge_loop env intersection_node index
                 (erase (intersection[getRight intersection index :=
                           merge (intersection ! getRight intersection index) (intersection ! index)])
                    index)
             else merge_loop env intersection_node (index + 1) intersection)
      else Some intersection)"
  by pat_completeness auto
termination
  by (relation "measure (\<lambda>(env, n, i, xs). length xs - i)") (auto simp: erase_def)

text \<open>
  \<^verbatim>\<open>std::sort\<close> with \<^verbatim>\<open>compareByAngle\<close> guarantees a permutation of the roads in
  ascending order of angle and nothing about the order of roads of equal angle (the
  introsort of libstdc++ is an insertion sort up to 16 elements and moves a pivot, chosen
  as a median of three, to the front on longer ranges). The sort is therefore a parameter
  of the model of the function, and \<open>sorts_by_angle\<close> is what the library promises of it.
\<close>

definition sorts_by_angle :: "(Intersection \<Rightarrow> Intersection) \<Rightarrow> bool" where
  "sorts_by_angle std_sort \<longleftrightarrow>
     (\<forall>roads. mset (std_sort roads) = mset roads \<and> sorted (map angle (std_sort roads)))"

definition MergeSegregatedRoads_with ::
  "(Intersection \<Rightarrow> Intersection) \<Rightarrow> Normalizer \<Rightarrow> NodeID \<Rightarrow> Intersection
   \<Rightarrow> Intersection option" where
  "MergeSegregatedRoads_with std_sort env intersection_node intersection =
     (if length intersection \<le> 1 then Some intersection
      else
        (let connected = is_connected_to_roundabout env intersection
         in case merge_first env intersection_node intersection of
              None \<Rightarrow> None
            | Some (merged_first, after_first) \<Rightarrow>
                (let disabled =
                       (if merged_first \<and> connected
                        then after_first[0 := (after_first ! 0)\<lparr>entry_allowed := False\<rparr>]
                        else after_first)
                 in case merge_loop env intersection_node 2 disabled of
                      None \<Rightarrow> None
                    | Some merged \<Rightarrow> Some (std_sort merged))))"

text \<open>
  The function with the sort that keeps the order of equal angles (sorting by insertion):
  what libstdc++ computes when at most 16 roads are left to sort.
\<close>

definition MergeSegregatedRoads :: "Normalizer \<Rightarrow> NodeID \<Rightarrow> Intersection \<Rightarrow> Intersection option" where
  "MergeSegregatedRoads env intersection_node intersection =
     MergeSegregatedRoads_with (sort_key angle) env intersection_node intersection"

section \<open>Adjusting for joining roads\<close>

definition adjustAngle :: "real \<Rightarrow> real \<Rightarrow> real" where
  "adjustAngle angle0 offset =
     (let angle1 = angle0 + offset
      in if angle1 > 360 then angle1 - 360
         else if angle1 < 0 then angle1 + 360
         else angle1)"

definition get_offset :: "ConnectedRoad \<Rightarrow> ConnectedRoad \<Rightarrow> real" where
  "get_offset lhs rhs = 0.5 * angularDeviation (angle lhs) (angle rhs)"

definition get_corrected_offset :: "Normalizer \<Rightarrow> real \<Rightarrow> ConnectedRoad \<Rightarrow> ConnectedRoad \<Rightarrow> real" where
  "get_corrected_offset env offset road next_road_in_offset_direction =
     (let offset_limit = angularDeviation (angle road) (angle next_road_in_offset_direction)
      in if offset + MAXIMAL_ALLOWED_NO_TURN_DEVIATION env > offset_limit
         then 0.5 * offset_limit else offset)"

text \<open>
  The three \<^verbatim>\<open>continue\<close> conditions of the loop body, as a function of the edge of the
  road under adjustment.
\<close>

definition skips :: "Normalizer \<Rightarrow> NodeID \<Rightarrow> EdgeID \<Rightarrow> bool" where
  "skips env node_at_intersection e \<longleftrightarrow>
     length (intersection_generator env node_at_intersection e) \<le> 1
     \<or> haversineDistance env (node_coordinates env node_at_intersection)
          (node_coordinates env (GetTarget env e)) > 30
     \<or> length (GetAdjacentEdgeRange env (GetTarget env e)) \<le> 1"

text \<open>
  One iteration of the loop of \<^verbatim>\<open>AdjustForJoiningRoads\<close>, for the road at \<open>index\<close>. The
  road is a reference into the vector, so the vector is updated in place; the neighbour
  read for the limit of the offset is read from the vector as it stands in this iteration.
\<close>

definition adjust_road :: "Normalizer \<Rightarrow> NodeID \<Rightarrow> Intersection \<Rightarrow> nat \<Rightarrow> Intersection option" where
  "adjust_road env node_at_intersection intersection index =
     (let road = intersection ! index;
          next_intersection_along_road =
            intersection_generator env node_at_intersection (eid road)
      in if length next_intersection_along_road \<le> 1 then Some intersection
         else
           (let node_at_next_intersection = GetTarget env (eid road)
            in if haversineDistance env (node_coordinates env node_at_intersection)
                    (node_coordinates env node_at_next_intersection) > 30
               then Some intersection
               else if length (GetAdjacentEdgeRange env node_at_next_intersection) \<le> 1
               then Some intersection
               else
                 (case CanMerge env node_at_next_intersection next_intersection_along_road 0 1 of
                    None \<Rightarrow> None
                  | Some can_right \<Rightarrow>
                      if can_right then
                        (let offset = get_offset (next_intersection_along_road ! 0)
                                        (next_intersection_along_road ! 1);
                             corrected_offset =
                               get_corrected_offset env offset road
                                 (intersection ! ((index + 1) mod length intersection))
                         in Some (intersection[index := road
                                    \<lparr>angle := adjustAngle (angle road) corrected_offset,
                                     bearing := adjustAngle (bearing road) corrected_offset\<rparr>]))
                      else
                        (case CanMerge env node_at_next_intersection next_intersection_along_road
                                0 (length next_intersection_along_road - 1) of
                           None \<Rightarrow> None
                         | Some can_left \<Rightarrow>
                             if can_left then
                               (let offset =
                                      get_offset (next_intersection_along_road ! 0)
                                        (next_intersection_along_road
                                           ! (length next_intersection_along_road - 1));
                                    corrected_offset =
                                      get_corrected_offset env offset road
                                        (intersection ! (index - 1))
                                in Some (intersection[index := road
                                    \<lparr>angle := adjustAngle (angle road) (- corrected_offset),
                                     bearing := adjustAngle (bearing road) (- corrected_offset)\<rparr>]))
                             else Some intersection))))"

lemma length_adjust_road:
  "adjust_road env node xs i = Some ys \<Longrightarrow> length ys = length xs"
  by (auto simp: adjust_road_def Let_def split: if_splits option.splits)

function adjust_loop :: "Normalizer \<Rightarrow> NodeID \<Rightarrow> nat \<Rightarrow> Intersection \<Rightarrow> Intersection option" where
  "adjust_loop env node_at_intersection index intersection =
     (if index < length intersection then
        (case adjust_road env node_at_intersection intersection index of
           None \<Rightarrow> None
         | Some adjusted \<Rightarrow> adjust_loop env node_at_intersection (index + 1) adjusted)
      else Some intersection)"
  by pat_completeness auto
termination
  by (relation "measure (\<lambda>(env, n, i, xs). length xs - i)")
     (auto dest: length_adjust_road)

definition AdjustForJoiningRoads :: "Normalizer \<Rightarrow> NodeID \<Rightarrow> Intersection \<Rightarrow> Intersection option" where
  "AdjustForJoiningRoads env node_at_intersection intersection =
     (if length intersection \<le> 1 then Some intersection
      else adjust_loop env node_at_intersection 1 intersection)"

text \<open>\<^verbatim>\<open>operator()\<close>: the two passes in their fixed order.\<close>

definition normalize :: "Normalizer \<Rightarrow> NodeID \<Rightarrow> Intersection \<Rightarrow> Intersection option" where
  "normalize env node_at_intersection intersection =
     (case MergeSegregatedRoads env node_at_intersection intersection of
        None \<Rightarrow> None
      | Some merged \<Rightarrow> AdjustForJoiningRoads env node_at_intersection merged)"

section \<open>The spec's wording of the circular midpoint, and concrete inputs\<close>

text \<open>
  The circular midpoint as the spec words it, in double arithmetic: the mean when the
  difference, as the subtraction rounds it, is below 180, otherwise the larger angle plus
  half the angular deviation, reduced by 360 when that exceeds 360.
\<close>

definition combineAngles_double_spec :: "real \<Rightarrow> real \<Rightarrow> real" where
  "combineAngles_double_spec a b =
     (if round_double \<bar>a - b\<bar> < 180 then round_double (0.5 * round_double (a + b))
      else (let s = round_double (max a b + round_double (0.5 * angularDeviation_double a b))
            in if s > 360 then round_double (s - 360) else s))"

text \<open>
  Concrete roads and collaborators for the examples: every edge carries the name 7, the
  empty name is 0, two names require an announcement when they differ, every node lies at
  the same coordinate, and the guard margin is 3. The edge data, the road-merge detector
  and the intersection generator vary with the example.
\<close>

definition road :: "EdgeID \<Rightarrow> bool \<Rightarrow> real \<Rightarrow> real \<Rightarrow> ConnectedRoad" where
  "road e allowed a b = \<lparr>eid = e, entry_allowed = allowed, angle = a, bearing = b\<rparr>"

definition example_normalizer ::
  "(EdgeID \<Rightarrow> EdgeData) \<Rightarrow> (NodeID \<Rightarrow> ConnectedRoad \<Rightarrow> ConnectedRoad \<Rightarrow> bool)
   \<Rightarrow> (NodeID \<Rightarrow> EdgeID \<Rightarrow> Intersection) \<Rightarrow> Normalizer" where
  "example_normalizer edge_data detector generator =
     \<lparr>GetEdgeData = edge_data,
      GetTarget = (\<lambda>e. e),
      GetAdjacentEdgeRange = (\<lambda>n. [0, 1, 2]),
      node_coordinates = (\<lambda>n. \<lparr>lon = 0, lat = 0\<rparr>),
      haversineDistance = (\<lambda>a b. 0),
      requiresNameAnnounced = (\<lambda>a b. a \<noteq> b),
      CanMergeRoad = detector,
      intersection_generator = generator,
      EMPTY_NAMEID = 0,
      MAXIMAL_ALLOWED_NO_TURN_DEVIATION = 3\<rparr>"

definition all_named :: "EdgeID \<Rightarrow> EdgeData" where
  "all_named e = \<lparr>name_id = 7, roundabout = False\<rparr>"

text \<open>Edge 0 has no name; the detector below accepts every pair of roads.\<close>

definition unnamed_0 :: "EdgeID \<Rightarrow> EdgeData" where
  "unnamed_0 e = \<lparr>name_id = (if e = 0 then 0 else 7), roundabout = False\<rparr>"

definition detector_always :: "NodeID \<Rightarrow> ConnectedRoad \<Rightarrow> ConnectedRoad \<Rightarrow> bool" where
  "detector_always n a b = True"

definition no_generator :: "NodeID \<Rightarrow> EdgeID \<Rightarrow> Intersection" where
  "no_generator n e = []"

definition three_roads :: Intersection where
  "three_roads = [road 0 True 0 180, road 1 True 90 270, road 2 True 270 90]"


definition detector_0_3 :: "NodeID \<Rightarrow> ConnectedRoad \<Rightarrow> ConnectedRoad \<Rightarrow> bool" where
  "detector_0_3 n a b \<longleftrightarrow> eid a = 0 \<and> eid b = 3"

definition detector_2_1 :: "NodeID \<Rightarrow> ConnectedRoad \<Rightarrow> ConnectedRoad \<Rightarrow> bool" where
  "detector_2_1 n a b \<longleftrightarrow> eid a = 2 \<and> eid b = 1"

definition four_roads :: Intersection where
  "four_roads = [road 0 True 0 180, road 1 True 90 270, road 2 True 180 0, road 3 False 300 120]"

definition strict_roads :: Intersection where
  "strict_roads = [road 0 True 0 180, road 1 True 10 190, road 2 True 200 20, road 3 True 285 105]"




text \<open>
  Next intersections for the adjustment of joining roads: \<open>generator_left\<close> with
  \<open>detector_10_12\<close> merges its u-turn with its last road (offset 50 to the right),
  \<open>generator_right\<close> with \<open>detector_10_11\<close> merges its u-turn with its road 1 (offset 5
  to the left); along edge 1 \<open>generator_dead_end_1\<close> finds nothing. All angles of the
  examples are integers, and all offsets integers or halves of integers, which a double
  represents exactly.
\<close>

definition detector_10_12 :: "NodeID \<Rightarrow> ConnectedRoad \<Rightarrow> ConnectedRoad \<Rightarrow> bool" where
  "detector_10_12 n a b \<longleftrightarrow> eid a = 10 \<and> eid b = 12"

definition detector_10_11 :: "NodeID \<Rightarrow> ConnectedRoad \<Rightarrow> ConnectedRoad \<Rightarrow> bool" where
  "detector_10_11 n a b \<longleftrightarrow> eid a = 10 \<and> eid b = 11"

definition generator_left :: "NodeID \<Rightarrow> EdgeID \<Rightarrow> Intersection" where
  "generator_left n e = [road 10 True 0 0, road 11 True 100 90, road 12 True 260 270]"

definition generator_right :: "NodeID \<Rightarrow> EdgeID \<Rightarrow> Intersection" where
  "generator_right n e = [road 10 True 0 0, road 11 True 10 90, road 12 True 200 270]"

definition generator_dead_end_1 :: "NodeID \<Rightarrow> EdgeID \<Rightarrow> Intersection" where
  "generator_dead_end_1 n e = (if e = 1 then [] else generator_left n e)"

definition close_roads :: Intersection where
  "close_roads = [road 0 True 0 180, road 1 True 100 280, road 2 True 104 284]"

definition wrap_roads :: Intersection where
  "wrap_roads = [road 0 True 0 180, road 1 True 10 190, road 2 True 350 170]"

definition bearing_roads :: Intersection where
  "bearing_roads = [road 0 True 0 180, road 1 True 100 355, road 2 True 200 90]"

text \<open>A road with its angle and its bearing shifted by \<^verbatim>\<open>adjustAngle\<close>.\<close>

definition offset_road :: "ConnectedRoad \<Rightarrow> real \<Rightarrow> ConnectedRoad" where
  "offset_road r c = r\<lparr>angle := adjustAngle (angle r) c, bearing := adjustAngle (bearing r) c\<rparr>"

section \<open>Auxiliary facts about the loops\<close>

declare binade_up.simps [simp del] binade_down.simps [simp del]

declare shift_left.simps [simp del] shift_right.simps [simp del] merge_loop.simps [simp del]
  adjust_loop.simps [simp del]

lemma length_shift_left: "length (shift_left c i xs) = length xs"
proof (induction c i xs rule: shift_left.induct)
  case (1 c i xs)
  then show ?case by (subst shift_left.simps) simp
qed

lemma nth_shift_left:
  "j < length xs \<Longrightarrow>
   shift_left c i xs ! j =
     (if i \<le> j \<and> j + 1 < length xs then (xs ! j)\<lparr>angle := angle (xs ! j) + c\<rparr> else xs ! j)"
proof (induction c i xs rule: shift_left.induct)
  case (1 c i xs)
  show ?case
  proof (cases "i + 1 < length xs")
    case True
    with 1 show ?thesis
      by (subst shift_left.simps) (auto simp: nth_list_update)
  next
    case False
    then show ?thesis by (subst shift_left.simps) auto
  qed
qed

lemma length_shift_right: "length (shift_right c i xs) = length xs"
proof (induction c i xs rule: shift_right.induct)
  case (1 c i xs)
  then show ?case by (subst shift_right.simps) simp
qed

lemma nth_shift_right:
  "j < length xs \<Longrightarrow>
   shift_right c i xs ! j =
     (if i \<le> j then (xs ! j)\<lparr>angle := angle (xs ! j) - c\<rparr> else xs ! j)"
proof (induction c i xs rule: shift_right.induct)
  case (1 c i xs)
  show ?case
  proof (cases "i < length xs")
    case True
    show ?thesis
    proof (cases "j = i")
      case True
      with 1 \<open>i < length xs\<close> show ?thesis
        by (subst shift_right.simps) (simp add: nth_list_update)
    next
      case False
      with 1 \<open>i < length xs\<close> show ?thesis
        by (subst shift_right.simps) (auto simp: nth_list_update)
    qed
  next
    case False
    with 1 show ?thesis by (subst shift_right.simps) auto
  qed
qed

lemma CanMerge_True_length:
  "CanMerge env node xs i j = Some True \<Longrightarrow> 2 < length xs"
  by (auto simp: CanMerge_def Let_def split: if_splits)

lemma merge_first_last:
  assumes "CanMerge env node xs 0 (length xs - 1) = Some True"
  shows "merge_first env node xs =
         Some (True, (merge (xs ! 0) (last xs))\<lparr>angle := 0\<rparr>
           # map (\<lambda>r. r\<lparr>angle := angle r + (360 - angle (last xs)) / 2\<rparr>) (butlast (tl xs)))"
proof -
  have len: "2 < length xs" using assms by (rule CanMerge_True_length)
  define c where "c = (360 - angle (last xs)) / 2"
  define shifted where "shifted = shift_left c 1 xs"
  define merged where "merged = shifted[0 := merge (shifted ! 0) (shifted ! (length shifted - 1))]"
  define zeroed where "zeroed = merged[0 := (merged ! 0)\<lparr>angle := 0\<rparr>]"
  have last: "xs ! (length xs - Suc 0) = last xs"
    using len by (cases xs rule: rev_cases) auto
  have len0: "0 < length xs" "Suc 0 < length xs" using len by auto
  have "butlast zeroed = (merge (xs ! 0) (last xs))\<lparr>angle := 0\<rparr>
           # map (\<lambda>r. r\<lparr>angle := angle r + c\<rparr>) (butlast (tl xs))"
    using len len0
    by (intro nth_equalityI)
       (auto simp: zeroed_def merged_def shifted_def length_shift_left nth_shift_left
          nth_butlast nth_list_update nth_tl last nth_Cons split: nat.splits)
  then show ?thesis
    using assms
    by (simp add: merge_first_def Let_def last zeroed_def merged_def shifted_def c_def)
qed

lemma merge_first_second:
  assumes "CanMerge env node xs 0 (length xs - 1) = Some False"
    and "CanMerge env node xs 0 1 = Some True"
  shows "merge_first env node xs =
         Some (True, (merge (xs ! 0) (xs ! 1))\<lparr>angle := 0\<rparr>
           # map (\<lambda>r. r\<lparr>angle := angle r - angle (xs ! 1) / 2\<rparr>) (drop 2 xs))"
proof -
  have len: "2 < length xs" using assms(2) by (rule CanMerge_True_length)
  define c where "c = angle (xs ! 1) / 2"
  define shifted where "shifted = shift_right c 2 xs"
  define merged where "merged = shifted[0 := merge (shifted ! 0) (shifted ! 1)]"
  define zeroed where "zeroed = merged[0 := (merged ! 0)\<lparr>angle := 0\<rparr>]"
  have len0: "0 < length xs" "Suc 0 < length xs" using len by auto
  have "erase zeroed 1 = (merge (xs ! 0) (xs ! 1))\<lparr>angle := 0\<rparr>
           # map (\<lambda>r. r\<lparr>angle := angle r - c\<rparr>) (drop 2 xs)"
    using len len0
    by (intro nth_equalityI)
       (auto simp: erase_def zeroed_def merged_def shifted_def length_shift_right
          nth_shift_right nth_list_update nth_append nth_Cons min_def split: nat.splits)
  then show ?thesis
    using assms
    by (simp add: merge_first_def Let_def zeroed_def merged_def shifted_def c_def)
qed

lemma merge_first_cases:
  assumes "2 \<le> length xs"
  obtains
    (last) "CanMerge env node xs 0 (length xs - 1) = Some True"
  | (second) "CanMerge env node xs 0 (length xs - 1) = Some False"
      "CanMerge env node xs 0 1 = Some True"
  | (none) "CanMerge env node xs 0 (length xs - 1) = Some False"
      "CanMerge env node xs 0 1 = Some False" "merge_first env node xs = Some (False, xs)"
proof -
  have "\<exists>b. CanMerge env node xs 0 (length xs - 1) = Some b"
    and "\<exists>b. CanMerge env node xs 0 1 = Some b"
    using assms by (auto simp: CanMerge_def Let_def)
  then obtain b1 b2 where b: "CanMerge env node xs 0 (length xs - 1) = Some b1"
    "CanMerge env node xs 0 1 = Some b2" by blast
  show thesis
  proof (cases b1)
    case True
    with b last show ?thesis by simp
  next
    case False
    note nb1 = this
    show ?thesis
    proof (cases b2)
      case True
      with b nb1 second show ?thesis by simp
    next
      case False
      with b nb1 none show ?thesis by (simp add: merge_first_def)
    qed
  qed
qed


lemma getRight_pred: "1 \<le> i \<Longrightarrow> i < length xs \<Longrightarrow> getRight xs i = i - 1"
proof -
  assume a: "1 \<le> i" "i < length xs"
  then have "i + length xs - 1 = length xs + (i - 1)" by simp
  then have "getRight xs i = (length xs + (i - 1)) mod length xs"
    by (simp only: getRight_def)
  also have "\<dots> = (i - 1) mod length xs" by (simp only: mod_add_self1)
  also have "\<dots> = i - 1" using a by simp
  finally show ?thesis .
qed

lemma merge_loop_invariant:
  assumes "P xs" and "2 \<le> index"
    and step: "\<And>ys i. P ys \<Longrightarrow> 2 \<le> i \<Longrightarrow> i < length ys \<Longrightarrow>
                P (erase (ys[i - 1 := merge (ys ! (i - 1)) (ys ! i)]) i)"
  shows "\<exists>zs. merge_loop env node index xs = Some zs \<and> P zs"
  using assms(1,2)
proof (induction env node index xs rule: merge_loop.induct)
  case (1 env node index xs)
  show ?case
  proof (cases "index < length xs")
    case False
    with 1(3) show ?thesis by (subst merge_loop.simps) simp
  next
    case True
    with 1(4) have gr: "getRight xs index = index - 1" by (simp add: getRight_pred)
    from True have "\<exists>b. CanMerge env node xs index (index - 1) = Some b"
      by (auto simp: CanMerge_def Let_def)
    then obtain b where b: "CanMerge env node xs index (index - 1) = Some b" ..
    show ?thesis
    proof (cases b)
      case True
      have "P (erase (xs[index - 1 := merge (xs ! (index - 1)) (xs ! index)]) index)"
        using 1(3,4) \<open>index < length xs\<close> by (rule step)
      with 1(1) [of b] 1(4) \<open>index < length xs\<close> b True gr show ?thesis
        by (subst merge_loop.simps) simp
    next
      case False
      with 1(2) [of b] 1(3,4) \<open>index < length xs\<close> b gr show ?thesis
        by (subst merge_loop.simps) simp
    qed
  qed
qed

lemma merge_loop_total: "2 \<le> index \<Longrightarrow> \<exists>zs. merge_loop env node index xs = Some zs"
  using merge_loop_invariant [of "\<lambda>_. True" xs index env node] by simp

lemma set_erase_update:
  "i < length ys \<Longrightarrow> set (erase (ys[k := m]) i) \<subseteq> insert m (set ys)"
proof -
  have "set (erase (ys[k := m]) i) \<subseteq> set (ys[k := m])"
    by (auto simp: erase_def dest: in_set_takeD in_set_dropD)
  also have "\<dots> \<subseteq> insert m (set ys)" by (rule set_update_subset_insert)
  finally show ?thesis .
qed

lemma erase_keeps_head:
  "1 \<le> k \<Longrightarrow> 2 \<le> i \<Longrightarrow> i < length ys \<Longrightarrow>
   erase (ys[k := m]) i \<noteq> [] \<and> erase (ys[k := m]) i ! 0 = ys ! 0"
  by (auto simp: erase_def nth_append)

lemma combineAngles_range:
  "0 \<le> a \<Longrightarrow> a \<le> 360 \<Longrightarrow> 0 \<le> b \<Longrightarrow> b \<le> 360 \<Longrightarrow>
   0 \<le> combineAngles a b \<and> combineAngles a b \<le> 360"
  by (auto simp: combineAngles_def aroundZero_def angularDeviation_def Let_def
        max_def min_def abs_if diff_divide_distrib)

lemma combineAngles_nonneg: "0 \<le> a \<Longrightarrow> 0 \<le> b \<Longrightarrow> 0 \<le> combineAngles a b"
  by (auto simp: combineAngles_def aroundZero_def angularDeviation_def Let_def
        max_def min_def abs_if diff_divide_distrib)


lemma sorted_angle_nth:
  "sorted (map angle xs) \<Longrightarrow> i \<le> j \<Longrightarrow> j < length xs \<Longrightarrow> angle (xs ! i) \<le> angle (xs ! j)"
  using sorted_iff_nth_mono [of "map angle xs"] by auto

lemma sorted_angle_last:
  assumes "sorted (map angle xs)" and "r \<in> set xs"
  shows "angle r \<le> angle (last xs)"
proof -
  from assms(2) obtain i where i: "i < length xs" "r = xs ! i"
    by (auto simp: in_set_conv_nth)
  then have "xs \<noteq> []" by auto
  then have "last xs = xs ! (length xs - 1)" by (rule last_conv_nth)
  with sorted_angle_nth [OF assms(1), of i "length xs - 1"] i show ?thesis by simp
qed

lemma sorted_angle_drop2:
  assumes "sorted (map angle xs)" and "r \<in> set (drop 2 xs)"
  shows "angle (xs ! 1) \<le> angle r"
proof -
  from assms(2) obtain k where k: "k < length (drop 2 xs)" "r = drop 2 xs ! k"
    by (auto simp: in_set_conv_nth)
  then have "r = xs ! (2 + k)" "2 + k < length xs" by auto
  with sorted_angle_nth [OF assms(1), of 1 "2 + k"] show ?thesis by simp
qed


lemma sorts_by_angle_insertion: "sorts_by_angle (sort_key angle)"
  by (simp add: sorts_by_angle_def)




subsection \<open>The adjustment loop and the angle arithmetic\<close>

lemma CanMerge_defined:
  "i < length xs \<Longrightarrow> j < length xs \<Longrightarrow> \<exists>b. CanMerge env node xs i j = Some b"
  by (auto simp: CanMerge_def Let_def)

lemma CanMerge_degree_two:
  "length xs \<le> 2 \<Longrightarrow> CanMerge env node xs i j \<noteq> Some True"
  by (auto simp: CanMerge_def Let_def)

lemma adjust_road_cases:
  obtains (skip) "adjust_road env node xs i = Some xs"
  | (plus) a b where
      "a \<in> set (intersection_generator env node (eid (xs ! i)))"
      "b \<in> set (intersection_generator env node (eid (xs ! i)))"
      "\<not> skips env node (eid (xs ! i))"
      "2 < length (intersection_generator env node (eid (xs ! i)))"
      "adjust_road env node xs i =
         Some (xs[i := offset_road (xs ! i)
           (get_corrected_offset env (get_offset a b) (xs ! i)
              (xs ! ((i + 1) mod length xs)))])"
  | (minus) a b where
      "a \<in> set (intersection_generator env node (eid (xs ! i)))"
      "b \<in> set (intersection_generator env node (eid (xs ! i)))"
      "\<not> skips env node (eid (xs ! i))"
      "2 < length (intersection_generator env node (eid (xs ! i)))"
      "adjust_road env node xs i =
         Some (xs[i := offset_road (xs ! i)
           (- get_corrected_offset env (get_offset a b) (xs ! i) (xs ! (i - 1)))])"
proof (cases "skips env node (eid (xs ! i))")
  case True
  then have "adjust_road env node xs i = Some xs"
    by (auto simp: adjust_road_def skips_def Let_def)
  then show thesis by (rule skip)
next
  case False
  define g where "g = intersection_generator env node (eid (xs ! i))"
  from False have len: "1 < length g" by (simp add: skips_def g_def)
  then have "\<exists>b. CanMerge env (GetTarget env (eid (xs ! i))) g 0 1 = Some b"
    by (intro CanMerge_defined) auto
  then obtain b1 where b1: "CanMerge env (GetTarget env (eid (xs ! i))) g 0 1 = Some b1" ..
  from len have "\<exists>b. CanMerge env (GetTarget env (eid (xs ! i))) g 0 (length g - 1) = Some b"
    by (intro CanMerge_defined) auto
  then obtain b2 where
    b2: "CanMerge env (GetTarget env (eid (xs ! i))) g 0 (length g - 1) = Some b2" ..
  from len have mem: "g ! 0 \<in> set g" "g ! 1 \<in> set g" "g ! (length g - 1) \<in> set g"
    by (auto intro!: nth_mem)
  show thesis
  proof (cases b1)
    case True
    with b1 have "2 < length g" using CanMerge_degree_two [of g] by (cases "length g \<le> 2") auto
    moreover have "adjust_road env node xs i =
         Some (xs[i := offset_road (xs ! i)
           (get_corrected_offset env (get_offset (g ! 0) (g ! 1)) (xs ! i)
              (xs ! ((i + 1) mod length xs)))])"
      using False b1 True
      by (simp add: adjust_road_def skips_def Let_def g_def offset_road_def)
    ultimately show ?thesis
      using plus [of "g ! 0" "g ! 1"] mem False
      by (simp add: g_def)
  next
    case False
    note nb1 = this
    show ?thesis
    proof (cases b2)
      case True
      with b2 have "2 < length g"
        using CanMerge_degree_two [of g] by (cases "length g \<le> 2") auto
      moreover have "adjust_road env node xs i =
           Some (xs[i := offset_road (xs ! i)
             (- get_corrected_offset env (get_offset (g ! 0) (g ! (length g - 1))) (xs ! i)
                (xs ! (i - 1)))])"
        using \<open>\<not> skips env node (eid (xs ! i))\<close> b1 nb1 b2 True
        by (simp add: adjust_road_def skips_def Let_def g_def offset_road_def)
      ultimately show ?thesis
        using minus [of "g ! 0" "g ! (length g - 1)"] mem \<open>\<not> skips env node (eid (xs ! i))\<close>
        by (simp add: g_def)
    next
      case False
      have "adjust_road env node xs i = Some xs"
        using \<open>\<not> skips env node (eid (xs ! i))\<close> b1 nb1 b2 False
        by (simp add: adjust_road_def skips_def Let_def g_def)
      then show ?thesis by (rule skip)
    qed
  qed
qed

lemma adjust_road_skip:
  assumes "skips env node (eid (xs ! i))
           \<or> length (intersection_generator env node (eid (xs ! i))) \<le> 2"
  shows "adjust_road env node xs i = Some xs"
  using assms by (cases rule: adjust_road_cases [of env node xs i]) auto

lemma adjust_road_frame:
  assumes "adjust_road env node xs i = Some ys"
  shows "length ys = length xs \<and> (\<forall>j. j \<noteq> i \<longrightarrow> ys ! j = xs ! j)
         \<and> (i < length xs \<longrightarrow> eid (ys ! i) = eid (xs ! i))"
  using assms
  by (cases rule: adjust_road_cases [of env node xs i]) (auto simp: offset_road_def)

lemma adjust_loop_invariant:
  assumes "P k xs"
    and "\<And>i ys zs. P i ys \<Longrightarrow> k \<le> i \<Longrightarrow> i < length ys \<Longrightarrow>
                 adjust_road env node ys i = Some zs \<Longrightarrow> P (Suc i) zs"
  shows "\<exists>zs m. adjust_loop env node k xs = Some zs \<and> P m zs"
  using assms
proof (induction env node k xs rule: adjust_loop.induct)
  case (1 env node k xs)
  show ?case
  proof (cases "k < length xs")
    case False
    with 1(2) show ?thesis by (subst adjust_loop.simps) auto
  next
    case True
    obtain zs where zs: "adjust_road env node xs k = Some zs"
      by (cases rule: adjust_road_cases [of env node xs k]) auto
    have "P (Suc k) zs" using 1(2) _ True zs by (rule 1(3)) simp
    then have "\<exists>ys m. adjust_loop env node (k + 1) zs = Some ys \<and> P m ys"
      using 1(3) by (intro 1(1) [OF True zs]) auto
    with True zs show ?thesis
      by (subst adjust_loop.simps) simp
  qed
qed



lemma angularDeviation_le_180: "angularDeviation a b \<le> 180"
  by (auto simp: angularDeviation_def Let_def min_def abs_if)



lemma angularDeviation_nonneg: "\<bar>a - b\<bar> \<le> 360 \<Longrightarrow> 0 \<le> angularDeviation a b"
  by (auto simp: angularDeviation_def Let_def min_def abs_if)

lemma angularDeviation_nonneg_range:
  "0 \<le> a \<Longrightarrow> a \<le> 360 \<Longrightarrow> 0 \<le> b \<Longrightarrow> b \<le> 360 \<Longrightarrow> 0 \<le> angularDeviation a b"
  by (intro angularDeviation_nonneg) (auto simp: abs_if)

lemma get_offset_range:
  assumes "0 \<le> angle a" "angle a \<le> 360" "0 \<le> angle b" "angle b \<le> 360"
  shows "0 \<le> get_offset a b \<and> get_offset a b \<le> 90"
  using angularDeviation_nonneg_range [OF assms] angularDeviation_le_180 [of "angle a" "angle b"]
  by (simp add: get_offset_def)


lemma corrected_offset_range:
  assumes "0 \<le> offset" and "offset \<le> 90"
    and "0 \<le> angularDeviation (angle r) (angle n)"
  shows "0 \<le> get_corrected_offset env offset r n \<and> get_corrected_offset env offset r n \<le> 90"
  using assms angularDeviation_le_180 [of "angle r" "angle n"]
  by (auto simp: get_corrected_offset_def Let_def)

lemma adjustAngle_range:
  "0 \<le> x \<Longrightarrow> x \<le> 360 \<Longrightarrow> - 360 \<le> c \<Longrightarrow> c \<le> 360 \<Longrightarrow>
   0 \<le> adjustAngle x c \<and> adjustAngle x c \<le> 360"
  by (auto simp: adjustAngle_def Let_def)


lemma offset_road_asserts:
  assumes "merge_asserts r" and "- 90 \<le> c" and "c \<le> 90"
  shows "merge_asserts (offset_road r c)"
  using assms adjustAngle_range [of "angle r" c] adjustAngle_range [of "bearing r" c]
  by (simp add: merge_asserts_def offset_road_def)

lemma merge_keeps_asserts:
  "merge_asserts a \<Longrightarrow> merge_asserts b \<Longrightarrow> merge_asserts (merge a b)"
  by (simp add: merge_asserts_def merge_def combineAngles_range)

lemma adjust_road_asserts:
  assumes R: "\<forall>r \<in> set ys. merge_asserts r" and i: "i < length ys"
    and gen: "\<forall>n e. \<forall>r \<in> set (intersection_generator env n e). 0 \<le> angle r \<and> angle r \<le> 360"
    and zs: "adjust_road env node ys i = Some zs"
  shows "\<forall>r \<in> set zs. merge_asserts r"
proof -
  have road: "merge_asserts (ys ! i)" using R i by simp
  have dev: "0 \<le> angularDeviation (angle (ys ! i)) (angle (ys ! j))" if "j < length ys" for j
  proof -
    from R that have "merge_asserts (ys ! j)" by simp
    with road show ?thesis
      by (intro angularDeviation_nonneg_range) (simp_all add: merge_asserts_def)
  qed
  have upd: "\<forall>r \<in> set (ys[i := offset_road (ys ! i) c]). merge_asserts r"
    if "- 90 \<le> c" "c \<le> 90" for c
  proof -
    have "merge_asserts (offset_road (ys ! i) c)" using road that by (rule offset_road_asserts)
    moreover have "set (ys[i := offset_road (ys ! i) c])
        \<subseteq> insert (offset_road (ys ! i) c) (set ys)" by (rule set_update_subset_insert)
    ultimately show ?thesis using R by auto
  qed
  show ?thesis
  proof (cases rule: adjust_road_cases [of env node ys i])
    case skip
    with zs R show ?thesis by simp
  next
    case (plus a b)
    from gen plus(1,2) have "0 \<le> get_offset a b \<and> get_offset a b \<le> 90"
      by (intro get_offset_range) auto
    moreover from i have "0 < length ys" by (cases ys) auto
    then have "(i + 1) mod length ys < length ys" by (rule mod_less_divisor)
    ultimately have "0 \<le> get_corrected_offset env (get_offset a b) (ys ! i)
          (ys ! ((i + 1) mod length ys))
        \<and> get_corrected_offset env (get_offset a b) (ys ! i)
          (ys ! ((i + 1) mod length ys)) \<le> 90"
      by (intro corrected_offset_range dev) auto
    then have "\<forall>r \<in> set (ys[i := offset_road (ys ! i)
        (get_corrected_offset env (get_offset a b) (ys ! i)
          (ys ! ((i + 1) mod length ys)))]). merge_asserts r"
      by (intro upd) auto
    with plus(5) zs show ?thesis by simp
  next
    case (minus a b)
    from gen minus(1,2) have "0 \<le> get_offset a b \<and> get_offset a b \<le> 90"
      by (intro get_offset_range) auto
    moreover from i have "i - 1 < length ys" by simp
    ultimately have "0 \<le> get_corrected_offset env (get_offset a b) (ys ! i) (ys ! (i - 1))
        \<and> get_corrected_offset env (get_offset a b) (ys ! i) (ys ! (i - 1)) \<le> 90"
      by (intro corrected_offset_range dev) auto
    then have "\<forall>r \<in> set (ys[i := offset_road (ys ! i)
        (- get_corrected_offset env (get_offset a b) (ys ! i) (ys ! (i - 1)))]).
        merge_asserts r"
      by (intro upd) auto
    with minus(5) zs show ?thesis by simp
  qed
qed

lemma AdjustForJoiningRoads_asserts:
  assumes R: "\<forall>r \<in> set xs. merge_asserts r"
    and gen: "\<forall>n e. \<forall>r \<in> set (intersection_generator env n e). 0 \<le> angle r \<and> angle r \<le> 360"
  shows "\<exists>zs. AdjustForJoiningRoads env node xs = Some zs \<and> (\<forall>r \<in> set zs. merge_asserts r)"
proof (cases "length xs \<le> 1")
  case True
  with R show ?thesis by (simp add: AdjustForJoiningRoads_def)
next
  case False
  define P where "P (i::nat) ys \<longleftrightarrow> (\<forall>r \<in> set ys. merge_asserts r)" for i ys
  have "P 1 xs" using R by (simp add: P_def)
  from adjust_loop_invariant [of P 1 xs env node, OF this]
  obtain zs m where "adjust_loop env node 1 xs = Some zs" "P m zs"
    using adjust_road_asserts [OF _ _ gen] unfolding P_def by blast
  with False show ?thesis by (simp add: AdjustForJoiningRoads_def P_def)
qed


lemma merge_first_asserts:
  assumes sorted: "sorted (map angle xs)" and R: "\<forall>r \<in> set xs. merge_asserts r"
    and len: "2 \<le> length xs"
    and ys: "merge_first env node xs = Some (flag, ys)"
  shows "ys \<noteq> [] \<and> (\<forall>r \<in> set ys. merge_asserts r)"
  using len
proof (cases rule: merge_first_cases [of xs env node])
  case last
  from len have ne: "xs \<noteq> []" by auto
  have l: "last xs \<in> set xs" and h: "xs ! 0 \<in> set xs"
    using len ne by (auto intro!: nth_mem)
  have "merge_asserts (r\<lparr>angle := angle r + (360 - angle (last xs)) / 2\<rparr>)"
    if "r \<in> set (butlast (tl xs))" for r
  proof -
    from that have "r \<in> set (tl xs)" by (rule in_set_butlastD)
    then have r: "r \<in> set xs" by (cases xs) auto
    then have "angle r \<le> angle (last xs)" using sorted by (intro sorted_angle_last)
    moreover from R r have "merge_asserts r" by simp
    moreover from R l have "merge_asserts (last xs)" by simp
    ultimately show ?thesis by (simp add: merge_asserts_def diff_divide_distrib)
  qed
  moreover have "merge_asserts ((merge (xs ! 0) (last xs))\<lparr>angle := 0\<rparr>)"
    using merge_keeps_asserts [of "xs ! 0" "last xs"] R l h by (simp add: merge_asserts_def)
  ultimately show ?thesis using ys merge_first_last [OF last] by auto
next
  case second
  have s: "xs ! 1 \<in> set xs" and h: "xs ! 0 \<in> set xs" using len by (auto intro!: nth_mem)
  have "merge_asserts (r\<lparr>angle := angle r - angle (xs ! 1) / 2\<rparr>)"
    if "r \<in> set (drop 2 xs)" for r
  proof -
    have "angle (xs ! 1) \<le> angle r" using sorted that by (rule sorted_angle_drop2)
    moreover from that have "r \<in> set xs" by (rule in_set_dropD)
    with R have "merge_asserts r" by simp
    moreover from R s have "merge_asserts (xs ! 1)" by simp
    ultimately show ?thesis by (simp add: merge_asserts_def)
  qed
  moreover have "merge_asserts ((merge (xs ! 0) (xs ! 1))\<lparr>angle := 0\<rparr>)"
    using merge_keeps_asserts [of "xs ! 0" "xs ! 1"] R s h by (simp add: merge_asserts_def)
  ultimately show ?thesis using ys merge_first_second [OF second] by auto
next
  case none
  with ys R len show ?thesis by auto
qed

lemma MergeSegregatedRoads_asserts:
  assumes sorted: "sorted (map angle xs)" and R: "\<forall>r \<in> set xs. merge_asserts r"
  shows "\<exists>zs. MergeSegregatedRoads env node xs = Some zs
           \<and> sorted (map angle zs) \<and> (\<forall>r \<in> set zs. merge_asserts r)"
proof (cases "length xs \<le> 1")
  case True
  with assms show ?thesis by (simp add: MergeSegregatedRoads_def MergeSegregatedRoads_with_def)
next
  case False
  then have len: "2 \<le> length xs" by simp
  then obtain flag ys where ys: "merge_first env node xs = Some (flag, ys)"
    by (cases rule: merge_first_cases [of xs env node])
       (auto simp: merge_first_last merge_first_second)
  from merge_first_asserts [OF sorted R len ys]
  have ne: "ys \<noteq> []" and Rys: "\<forall>r \<in> set ys. merge_asserts r" by auto
  define ds where "ds = (if flag \<and> is_connected_to_roundabout env xs
      then ys[0 := (ys ! 0)\<lparr>entry_allowed := False\<rparr>] else ys)"
  have "merge_asserts ((ys ! 0)\<lparr>entry_allowed := False\<rparr>)"
    using ne Rys by (cases ys) (auto simp: merge_asserts_def)
  moreover have "set (ys[0 := (ys ! 0)\<lparr>entry_allowed := False\<rparr>])
      \<subseteq> insert ((ys ! 0)\<lparr>entry_allowed := False\<rparr>) (set ys)"
    by (rule set_update_subset_insert)
  ultimately have Rds: "\<forall>r \<in> set ds. merge_asserts r"
    using Rys by (auto simp: ds_def)
  have step: "\<forall>r \<in> set (erase (zs[i - 1 := merge (zs ! (i - 1)) (zs ! i)]) i). merge_asserts r"
    if "\<forall>r \<in> set zs. merge_asserts r" "2 \<le> i" "i < length zs" for zs i
  proof -
    from that have "merge_asserts (merge (zs ! (i - 1)) (zs ! i))"
      by (intro merge_keeps_asserts) auto
    moreover have "set (erase (zs[i - 1 := merge (zs ! (i - 1)) (zs ! i)]) i)
        \<subseteq> insert (merge (zs ! (i - 1)) (zs ! i)) (set zs)"
      using that(3) by (rule set_erase_update)
    ultimately show ?thesis using that(1) by auto
  qed
  from merge_loop_invariant [of "\<lambda>zs. \<forall>r \<in> set zs. merge_asserts r" ds 2 env node, OF Rds _ step]
  obtain zs where zs: "merge_loop env node 2 ds = Some zs" "\<forall>r \<in> set zs. merge_asserts r"
    by auto
  have "MergeSegregatedRoads env node xs = Some (sort_key angle zs)"
    using False ys zs(1) by (simp add: MergeSegregatedRoads_def MergeSegregatedRoads_with_def Let_def ds_def)
  with zs(2) show ?thesis by simp
qed






subsection \<open>Rounding to double precision\<close>

lemmas round_double_eval =
  round_double_def exponent_def binade_up.simps binade_down.simps pow2_def round_half_even_def

lemma round_half_even_ge: "of_int n \<le> y \<Longrightarrow> n \<le> round_half_even y"
proof -
  assume "of_int n \<le> y"
  then have "n \<le> \<lfloor>y\<rfloor>" by (simp add: le_floor_iff)
  then show ?thesis by (auto simp: round_half_even_def Let_def)
qed

lemma round_half_even_le: "y \<le> of_int n \<Longrightarrow> round_half_even y \<le> n"
proof (cases "y = of_int n")
  case True
  then show ?thesis by (simp add: round_half_even_def Let_def)
next
  case False
  assume "y \<le> of_int n"
  with False have "y < of_int n" by simp
  then have "\<lfloor>y\<rfloor> < n" by (simp add: floor_less_iff)
  then show ?thesis by (auto simp: round_half_even_def Let_def)
qed

lemma pow2_powi: "pow2 e = 2 powi e"
  by (simp add: pow2_def power_int_def power_one_over)

lemma pow2_pos: "0 < pow2 e"
  by (simp add: pow2_def)

lemma pow2_add: "pow2 (a + b) = pow2 a * pow2 b"
  by (simp add: pow2_powi power_int_add)

lemma pow2_mono: "a \<le> b \<Longrightarrow> pow2 a \<le> pow2 b"
  by (simp add: pow2_powi power_int_increasing)

lemma pow2_nat: "pow2 (int k) = 2 ^ k"
  by (simp add: pow2_def)

lemma binade_up_lower: "1 \<le> x \<Longrightarrow> 2 ^ binade_up n x \<le> x"
proof (induction n x rule: binade_up.induct)
  case (1 n x)
  show ?case
  proof (cases "n = 0 \<or> x < 2")
    case True
    with 1(2) show ?thesis by (subst binade_up.simps) simp
  next
    case False
    then have "1 \<le> x / 2" by simp
    with 1(1) [OF False] have "2 ^ binade_up (n - 1) (x / 2) \<le> x / 2" by simp
    with False show ?thesis by (subst binade_up.simps) simp
  qed
qed

lemma binade_up_upper: "x < 2 ^ (binade_up n x + 1) \<or> binade_up n x = n"
proof (induction n x rule: binade_up.induct)
  case (1 n x)
  show ?case
  proof (cases "n = 0 \<or> x < 2")
    case True
    then show ?thesis by (subst (1 2) binade_up.simps) auto
  next
    case False
    with 1 [OF False] show ?thesis by (subst (1 2) binade_up.simps) auto
  qed
qed

lemma binade_down_upper: "x < 2 \<Longrightarrow> x * 2 ^ binade_down n x < 2"
proof (induction n x rule: binade_down.induct)
  case (1 n x)
  show ?case
  proof (cases "n = 0 \<or> 1 \<le> x")
    case True
    with 1(2) show ?thesis by (subst binade_down.simps) simp
  next
    case False
    then have "2 * x < 2" by simp
    with 1(1) [OF False] have "2 * x * 2 ^ binade_down (n - 1) (2 * x) < 2" by simp
    with False show ?thesis by (subst binade_down.simps) (simp add: mult.assoc)
  qed
qed

lemma exponent_lower: "1 \<le> x \<Longrightarrow> pow2 (exponent x) \<le> x"
  by (simp add: exponent_def pow2_nat binade_up_lower)

lemma exponent_upper: "0 < x \<Longrightarrow> x < pow2 (exponent x + 1) \<or> exponent x = 1023"
proof (cases "1 \<le> x")
  case True
  have "pow2 (int (binade_up 1023 x) + 1) = 2 ^ (binade_up 1023 x + 1)"
    using pow2_nat [of "binade_up 1023 x + 1"] by (simp add: add.commute)
  with True binade_up_upper [of x 1023] show ?thesis
    by (auto simp: exponent_def)
next
  case False
  assume "0 < x"
  define k where "k = binade_down 1022 x"
  from False have "x * 2 ^ k < 2" unfolding k_def by (intro binade_down_upper) simp
  then have "x < 2 / 2 ^ k" by (simp add: pos_less_divide_eq)
  also have "2 / 2 ^ k = pow2 (- int k + 1)"
  proof -
    have "pow2 (- int k + 1) = pow2 (- int k) * pow2 1" by (simp only: pow2_add)
    also have "pow2 1 = 2" by (simp add: pow2_def)
    also have "pow2 (- int k) = 1 / 2 ^ k" by (simp add: pow2_def)
    finally show ?thesis by simp
  qed
  finally show ?thesis using False by (simp add: exponent_def k_def)
qed

lemma round_double_le_next:
  assumes "0 < x" and "x < pow2 (exponent x + 1)"
  shows "round_double x \<le> pow2 (exponent x + 1)"
proof -
  define q where "q = pow2 (exponent x - 52)"
  have q: "0 < q" by (simp add: q_def pow2_pos)
  have "exponent x + 1 = 53 + (exponent x - 52)" by simp
  then have "pow2 (exponent x + 1) = pow2 53 * pow2 (exponent x - 52)"
    by (simp only: pow2_add)
  moreover have "pow2 53 = 2 ^ 53" by (simp add: pow2_def)
  ultimately have split: "pow2 (exponent x + 1) = 2 ^ 53 * q" by (simp only: q_def)
  with assms(2) q have "x / q \<le> of_int (2 ^ 53)" by (simp add: pos_divide_le_eq)
  then have "round_half_even (x / q) \<le> 2 ^ 53" by (rule round_half_even_le)
  then have "of_int (round_half_even (x / q)) \<le> (2 ^ 53 :: real)"
    by (metis of_int_le_iff of_int_numeral of_int_power)
  with q have "of_int (round_half_even (x / q)) * q \<le> 2 ^ 53 * q" by simp
  with assms(1) split show ?thesis by (simp add: round_double_def q_def Let_def)
qed

lemma round_double_small: "0 \<le> x \<Longrightarrow> x < 128 \<Longrightarrow> round_double x \<le> 128"
proof (cases "x = 0")
  case True
  then show ?thesis by (simp add: round_double_def)
next
  case False
  assume "0 \<le> x" "x < 128"
  with False have pos: "0 < x" by simp
  have e: "exponent x \<le> 6"
  proof (cases "1 \<le> x")
    case True
    with binade_up_lower [of x 1023] \<open>x < 128\<close> have "(2::real) ^ binade_up 1023 x < 2 ^ 7"
      by simp
    then have "binade_up 1023 x < 7" by (rule power_less_imp_less_exp [rotated]) simp
    with True show ?thesis by (simp add: exponent_def)
  next
    case False
    then show ?thesis by (simp add: exponent_def)
  qed
  then have "exponent x \<noteq> 1023" by simp
  with exponent_upper [OF pos] have "x < pow2 (exponent x + 1)" by simp
  with pos have "round_double x \<le> pow2 (exponent x + 1)" by (rule round_double_le_next)
  also have "\<dots> \<le> pow2 7" using e by (intro pow2_mono) simp
  finally show ?thesis by (simp add: pow2_def)
qed


lemma round_double_binade_7:
  assumes "128 \<le> x" and "x < 256"
  shows "round_double x = of_int (round_half_even (x * 2 ^ 45)) / 2 ^ 45"
proof -
  from assms have "exponent x = 7" by (simp add: exponent_def binade_up.simps)
  with assms show ?thesis by (simp add: round_double_def pow2_def)
qed

lemma round_double_binade_8:
  assumes "256 \<le> x" and "x < 512"
  shows "round_double x = of_int (round_half_even (x * 2 ^ 44)) / 2 ^ 44"
proof -
  from assms have "exponent x = 8" by (simp add: exponent_def binade_up.simps)
  with assms show ?thesis by (simp add: round_double_def pow2_def)
qed

lemma round_double_below_180:
  assumes "0 \<le> x" and "x \<le> 180 - 1 / 2 ^ 45"
  shows "round_double x \<le> 180 - 1 / 2 ^ 45"
proof (cases "x < 128")
  case True
  with assms(1) have "round_double x \<le> 128" by (rule round_double_small)
  then show ?thesis by simp
next
  case False
  with assms have b: "128 \<le> x" "x < 256" by simp_all
  from assms(2) have "x * 2 ^ 45 \<le> of_int (180 * 2 ^ 45 - 1)" by (simp add: field_simps)
  then have "round_half_even (x * 2 ^ 45) \<le> 180 * 2 ^ 45 - 1" by (rule round_half_even_le)
  then have "(of_int (round_half_even (x * 2 ^ 45)) :: real) \<le> of_int (180 * 2 ^ 45 - 1)"
    by (simp only: of_int_le_iff)
  then show ?thesis unfolding round_double_binade_7 [OF b] by (simp add: field_simps)
qed

lemma round_double_at_least_180:
  assumes "180 \<le> x" and "x < 512"
  shows "180 \<le> round_double x"
proof (cases "x < 256")
  case True
  with assms have b: "128 \<le> x" "x < 256" by simp_all
  from assms(1) have "of_int (180 * 2 ^ 45) \<le> x * 2 ^ 45" by simp
  then have "180 * 2 ^ 45 \<le> round_half_even (x * 2 ^ 45)" by (rule round_half_even_ge)
  then have "(of_int (180 * 2 ^ 45) :: real) \<le> of_int (round_half_even (x * 2 ^ 45))"
    by (simp only: of_int_le_iff)
  then show ?thesis unfolding round_double_binade_7 [OF b] by (simp add: field_simps)
next
  case False
  with assms have b: "256 \<le> x" "x < 512" by simp_all
  from b(1) have "of_int (256 * 2 ^ 44) \<le> x * 2 ^ 44" by simp
  then have "256 * 2 ^ 44 \<le> round_half_even (x * 2 ^ 44)" by (rule round_half_even_ge)
  then have "(of_int (256 * 2 ^ 44) :: real) \<le> of_int (round_half_even (x * 2 ^ 44))"
    by (simp only: of_int_le_iff)
  then show ?thesis unfolding round_double_binade_8 [OF b] by (simp add: field_simps)
qed

lemma aroundZero_double_abs: "aroundZero_double a b \<longleftrightarrow> 180 \<le> round_double \<bar>a - b\<bar>"
proof -
  have "max a b - min a b = \<bar>a - b\<bar>" by (simp add: max_def min_def)
  then show ?thesis by (simp only: aroundZero_double_def)
qed

section \<open>Properties of the mergeability test and of the merge\<close>

text \<open>
  C2, as the code has it: in double arithmetic \<^verbatim>\<open>combineAngles\<close> is the function the spec
  words with the case split taken on the rounded difference. The mean is returned whenever
  the exact difference is at most \<open>180 - 2 ^ -45\<close> (the largest double below 180), and for
  angles of \<open>[0, 360)\<close> the other branch whenever the exact difference is at least 180: the
  larger angle plus half the angular deviation, less 360 when that sum exceeds 360. Only
  an exact difference strictly between \<open>180 - 2 ^ -45\<close> and 180 can be rounded across the
  boundary. At 350 and 10 the result is 360, at angular deviation 0 from 0, and not 180.
\<close>

theorem combineAngles_double_as_specified:
  "combineAngles_double a b = combineAngles_double_spec a b
   \<and> (\<bar>a - b\<bar> \<le> 180 - 1 / 2 ^ 45 \<longrightarrow>
        combineAngles_double a b = round_double (0.5 * round_double (a + b)))
   \<and> (0 \<le> a \<and> a < 360 \<and> 0 \<le> b \<and> b < 360 \<and> 180 \<le> \<bar>a - b\<bar> \<longrightarrow>
        combineAngles_double a b =
          (let s = round_double (max a b + round_double (0.5 * angularDeviation_double a b))
           in if s > 360 then round_double (s - 360) else s))
   \<and> combineAngles_double 350 10 = 360
   \<and> angularDeviation_double (combineAngles_double 350 10) 0 = 0
   \<and> combineAngles_double 350 10 \<noteq> 180"
proof -
  have spec: "combineAngles_double a b = combineAngles_double_spec a b"
    by (simp add: combineAngles_double_def combineAngles_double_spec_def aroundZero_double_abs
          Let_def not_le)
  have mean: "combineAngles_double a b = round_double (0.5 * round_double (a + b))"
    if "\<bar>a - b\<bar> \<le> 180 - 1 / 2 ^ 45"
  proof -
    from that have "round_double \<bar>a - b\<bar> \<le> 180 - 1 / 2 ^ 45"
      by (intro round_double_below_180) simp_all
    then have "\<not> aroundZero_double a b" by (simp add: aroundZero_double_abs)
    then show ?thesis by (simp add: combineAngles_double_def)
  qed
  have far: "combineAngles_double a b =
      (let s = round_double (max a b + round_double (0.5 * angularDeviation_double a b))
       in if s > 360 then round_double (s - 360) else s)"
    if "0 \<le> a" "a < 360" "0 \<le> b" "b < 360" "180 \<le> \<bar>a - b\<bar>"
  proof -
    from that have "180 \<le> round_double \<bar>a - b\<bar>"
      by (intro round_double_at_least_180) (auto simp: abs_if)
    then have "aroundZero_double a b" by (simp add: aroundZero_double_abs)
    then show ?thesis by (simp add: combineAngles_double_def Let_def)
  qed
  have r340: "round_double (350 - 10) = 340" by (simp add: round_double_eval)
  have rm340: "round_double (10 - 350) = - 340" by (simp add: round_double_eval)
  have r20: "round_double (360 - 340) = 20" by (simp add: round_double_eval)
  have r10: "round_double (0.5 * 20) = 10" by (simp add: round_double_eval)
  have r360: "round_double (350 + 10) = 360" by (simp add: round_double_eval)
  have r360': "round_double (360 - 0) = 360" by (simp add: round_double_eval)
  have r0: "round_double (360 - 360) = 0" by (simp add: round_double_def)
  have dev: "angularDeviation_double 350 10 = 20"
    unfolding angularDeviation_double_def Let_def r340 using r20 by simp
  have around: "aroundZero_double 350 10"
    unfolding aroundZero_double_def using r340 by simp
  have val: "combineAngles_double 350 10 = 360"
    unfolding combineAngles_double_def Let_def dev using around r10 r360 by simp
  have "angularDeviation_double 360 0 = 0"
    unfolding angularDeviation_double_def Let_def using r360' r0 by simp
  with spec mean far val show ?thesis by simp
qed

theorem combineAngles_double_as_specified_witness:
  "\<bar>170 - 190\<bar> \<le> (180 - 1 / 2 ^ 45 :: real) \<and> combineAngles_double 170 190 = 180
   \<and> (180::real) \<le> \<bar>10 - 200\<bar> \<and> combineAngles_double 10 200 = 285"
proof -
  have a: "round_double (170 + 190) = 360" by (simp add: round_double_eval)
  have b: "round_double (0.5 * 360) = 180" by (simp add: round_double_eval)
  have c: "round_double (10 - 200) = - 190" by (simp add: round_double_eval)
  have d: "round_double (360 - 190) = 170" by (simp add: round_double_eval)
  have e: "round_double (0.5 * 170) = 85" by (simp add: round_double_eval)
  have f: "round_double (200 + 85) = 285" by (simp add: round_double_eval)
  have dev: "angularDeviation_double 10 200 = 170"
    unfolding angularDeviation_double_def Let_def c using d by simp
  from combineAngles_double_as_specified [of 170 190] a b
    combineAngles_double_as_specified [of 10 200] dev e f
  show ?thesis by (simp add: Let_def)
qed

text \<open>
  Counterexample to C2 as stated: \<open>120 + 2 ^ -46\<close> and 300 are doubles of \<open>[0, 360)\<close> whose
  exact difference \<open>180 - 2 ^ -46\<close> is below 180. The subtraction rounds it to 180 (a tie,
  resolved to the even neighbour), so the code takes the other branch and returns
  300 + 180 / 2 - 360 = 30, not the mean, which is above 210.
\<close>

theorem combineAngles_double_counterexample:
  "round_double (120 + 1 / 2 ^ 46) = 120 + 1 / 2 ^ 46
   \<and> round_double 300 = 300
   \<and> (0::real) \<le> 120 + 1 / 2 ^ 46 \<and> 120 + 1 / 2 ^ 46 < (360::real)
   \<and> \<bar>(120 + 1 / 2 ^ 46) - 300\<bar> < (180::real)
   \<and> combineAngles_double (120 + 1 / 2 ^ 46) 300 = 30
   \<and> (210::real) < ((120 + 1 / 2 ^ 46) + 300) / 2"
proof -
  have a: "round_double (120 + 1 / 2 ^ 46) = 120 + 1 / 2 ^ 46"
    by (simp add: round_double_eval)
  have b: "round_double 300 = 300"
    by (simp add: round_double_eval)
  have diff: "round_double (300 - (120 + 1 / 2 ^ 46)) = 180"
    by (simp add: round_double_eval)
  have neg: "round_double ((120 + 1 / 2 ^ 46) - 300) = - 180"
    by (simp add: round_double_eval)
  have compl: "round_double (360 - 180) = 180"
    by (simp add: round_double_eval)
  have half: "round_double (0.5 * 180) = 90"
    by (simp add: round_double_eval)
  have sum: "round_double (300 + 90) = 390"
    by (simp add: round_double_eval)
  have wrap: "round_double (390 - 360) = 30"
    by (simp add: round_double_eval)
  have around: "aroundZero_double (120 + 1 / 2 ^ 46) 300"
    unfolding aroundZero_double_def using diff by (simp add: max_def min_def)
  have dev: "angularDeviation_double (120 + 1 / 2 ^ 46) 300 = 180"
    unfolding angularDeviation_double_def Let_def neg using compl by simp
  have "combineAngles_double (120 + 1 / 2 ^ 46) 300 = 30"
    unfolding combineAngles_double_def Let_def dev using around half sum wrap
    by (simp add: max_def)
  with a b show ?thesis by simp
qed

text \<open>
  C4: the merged road has the angle and the bearing that \<^verbatim>\<open>combineAngles\<close> gives for the
  two inputs; all its other fields are those of the first input when that one may be
  entered and of the second otherwise, so the result may be entered exactly when one of
  the inputs may; roads at the angles 170 and 190 merge to the angle 180.
\<close>

theorem merge_semantics:
  "angle (merge first second) = combineAngles (angle first) (angle second)
   \<and> bearing (merge first second) = combineAngles (bearing first) (bearing second)
   \<and> (entry_allowed first \<longrightarrow>
        merge first second = first\<lparr>angle := combineAngles (angle first) (angle second),
             bearing := combineAngles (bearing first) (bearing second)\<rparr>)
   \<and> (\<not> entry_allowed first \<longrightarrow>
        merge first second = second\<lparr>angle := combineAngles (angle first) (angle second),
             bearing := combineAngles (bearing first) (bearing second)\<rparr>)
   \<and> entry_allowed (merge first second) = (entry_allowed first \<or> entry_allowed second)
   \<and> (angle first = 170 \<and> angle second = 190 \<longrightarrow> angle (merge first second) = 180)"
  by (simp add: merge_def combineAngles_def aroundZero_def)

theorem merge_semantics_witness:
  "merge (road 1 False 170 80) (road 2 True 190 100) = road 2 True 180 90"
  using merge_semantics [of "road 1 False 170 80" "road 2 True 190 100"]
  by (simp add: road_def combineAngles_def aroundZero_def)

text \<open>
  C5: when the edge of either of the two roads has the empty name, \<^verbatim>\<open>CanMerge\<close> returns
  false, whatever the road-merge detector answers (the detector is replaced by an arbitrary
  one). The two indices are indices of the intersection.
\<close>

theorem CanMerge_name_veto:
  assumes "first_index < length intersection" and "second_index < length intersection"
    and "name_id (GetEdgeData env (eid (intersection ! first_index))) = EMPTY_NAMEID env
         \<or> name_id (GetEdgeData env (eid (intersection ! second_index))) = EMPTY_NAMEID env"
  shows "CanMerge (env\<lparr>CanMergeRoad := detector\<rparr>) node intersection first_index second_index
         = Some False"
  using assms by (auto simp: CanMerge_def Let_def)

theorem CanMerge_name_veto_witness:
  "CanMerge ((example_normalizer unnamed_0 detector_always no_generator)
              \<lparr>CanMergeRoad := detector_always\<rparr>) 0 three_roads 0 2 = Some False
   \<and> length three_roads = 3
   \<and> CanMerge (example_normalizer all_named detector_always no_generator) 0 three_roads 0 2
       = Some True"
  using CanMerge_name_veto [of 0 three_roads 2
      "example_normalizer unnamed_0 detector_always no_generator" detector_always 0]
  by (simp add: CanMerge_def example_normalizer_def unnamed_0_def all_named_def
        detector_always_def three_roads_def road_def)

text \<open>
  C10: \<^verbatim>\<open>CanMerge\<close> is defined exactly when both indices lie inside the intersection: it
  reads both elements before it looks at the size, so an index outside is an access out of
  range even when the intersection has at most two roads, where the answer inside the
  range is false.
\<close>

theorem CanMerge_index_precondition:
  "(CanMerge env node intersection first_index second_index \<noteq> None)
     = (first_index < length intersection \<and> second_index < length intersection)
   \<and> (length intersection \<le> 2 \<longrightarrow>
        CanMerge env node intersection first_index second_index
        = (if first_index < length intersection \<and> second_index < length intersection
           then Some False else None))"
proof (cases "first_index < length intersection \<and> second_index < length intersection")
  case True
  then show ?thesis by (auto simp: CanMerge_def Let_def)
next
  case False
  then show ?thesis by (auto simp: CanMerge_def Let_def)
qed

theorem CanMerge_index_precondition_witness:
  "CanMerge (example_normalizer all_named detector_always no_generator) 0
     [road 0 True 0 180] 0 1 = None
   \<and> CanMerge (example_normalizer all_named detector_always no_generator) 0
     [road 0 True 0 180, road 1 True 180 0] 0 1 = Some False"
  using CanMerge_index_precondition [of "example_normalizer all_named detector_always no_generator"
      0 "[road 0 True 0 180]" 0 1]
    CanMerge_index_precondition [of "example_normalizer all_named detector_always no_generator"
      0 "[road 0 True 0 180, road 1 True 180 0]" 0 1]
  by simp

section \<open>Properties of the merge of segregated roads\<close>

text \<open>
  C3: when \<^verbatim>\<open>CanMerge\<close> holds for the u-turn and the last road, the first step of
  \<^verbatim>\<open>MergeSegregatedRoads\<close> leaves the merge of entry 0 and the last entry with its angle
  set to 0, followed by the interior roads (indices 1 to last - 1), each with its angle
  raised by (360 - angle of the last road) / 2; the last entry is gone, and the branch for
  the roads 0 and 1 is not taken, whether or not its test would hold. \<^verbatim>\<open>MergeSegregatedRoads\<close> continues from exactly this
  intersection (entry 0 closed when a road lies on a roundabout) with the general pass and
  the sort.
\<close>

theorem merge_with_last:
  assumes "CanMerge env node intersection 0 (length intersection - 1) = Some True"
  shows "merge_first env node intersection =
           Some (True,
             (merge (intersection ! 0) (last intersection))\<lparr>angle := 0\<rparr>
             # map (\<lambda>r. r\<lparr>angle := angle r + (360 - angle (last intersection)) / 2\<rparr>)
                 (butlast (tl intersection)))
         \<and> MergeSegregatedRoads env node intersection =
           (case merge_loop env node 2
                   ((merge (intersection ! 0) (last intersection))
                      \<lparr>angle := 0,
                       entry_allowed :=
                         entry_allowed (merge (intersection ! 0) (last intersection))
                         \<and> \<not> is_connected_to_roundabout env intersection\<rparr>
                    # map (\<lambda>r. r\<lparr>angle := angle r + (360 - angle (last intersection)) / 2\<rparr>)
                        (butlast (tl intersection))) of
              None \<Rightarrow> None
            | Some merged \<Rightarrow> Some (sort_key angle merged))"
proof -
  have len: "2 < length intersection" using assms by (rule CanMerge_True_length)
  note mf = merge_first_last [OF assms]
  have "(merge (intersection ! 0) (last intersection))\<lparr>angle := 0\<rparr> =
        (merge (intersection ! 0) (last intersection))
          \<lparr>angle := 0, entry_allowed := entry_allowed (merge (intersection ! 0) (last intersection))\<rparr>"
    by simp
  with mf len show ?thesis
    by (simp add: MergeSegregatedRoads_def MergeSegregatedRoads_with_def Let_def)
qed

theorem merge_with_last_witness:
  "CanMerge (example_normalizer all_named detector_always no_generator) 0 four_roads 0
      (length four_roads - 1) = Some True
   \<and> CanMerge (example_normalizer all_named detector_always no_generator) 0 four_roads 0 1
       = Some True
   \<and> merge_first (example_normalizer all_named detector_always no_generator) 0 four_roads =
       Some (True, [road 0 True 0 150, road 1 True 120 270, road 2 True 210 0])"
proof -
  have c: "CanMerge (example_normalizer all_named detector_always no_generator) 0 four_roads 0
      (length four_roads - 1) = Some True"
    by (simp add: CanMerge_def example_normalizer_def all_named_def detector_always_def
          four_roads_def road_def)
  have d: "CanMerge (example_normalizer all_named detector_always no_generator) 0 four_roads 0 1
      = Some True"
    by (simp add: CanMerge_def example_normalizer_def all_named_def detector_always_def
          four_roads_def road_def)
  from c d merge_with_last [OF c] show ?thesis
    by (simp add: four_roads_def road_def merge_def combineAngles_def aroundZero_def
          angularDeviation_def)
qed

text \<open>
  C9, as the code has it: \<^verbatim>\<open>MergeSegregatedRoads\<close> returns for every input, and the
  roads it returns are in ascending order of angle, each angle at most its successor's.
  The order need not be strict: two roads of the result may share an angle.
\<close>

theorem MergeSegregatedRoads_sorted:
  "\<exists>merged. MergeSegregatedRoads env node intersection = Some merged
     \<and> sorted (map angle merged)"
proof (cases "length intersection \<le> 1")
  case True
  then have "sorted (map angle intersection)"
    by (cases intersection) auto
  with True show ?thesis by (simp add: MergeSegregatedRoads_def MergeSegregatedRoads_with_def)
next
  case False
  then have "2 \<le> length intersection" by simp
  then obtain flag ys where "merge_first env node intersection = Some (flag, ys)"
    by (cases rule: merge_first_cases [of intersection env node])
       (auto simp: merge_first_last merge_first_second)
  moreover obtain zs where "merge_loop env node 2
      (if flag \<and> is_connected_to_roundabout env intersection
       then ys[0 := (ys ! 0)\<lparr>entry_allowed := False\<rparr>] else ys) = Some zs"
    using merge_loop_total [of 2] by blast
  ultimately show ?thesis
    using False by (simp add: MergeSegregatedRoads_def MergeSegregatedRoads_with_def Let_def)
qed

theorem MergeSegregatedRoads_sorted_witness:
  "MergeSegregatedRoads (example_normalizer all_named detector_0_3 no_generator) 0 four_roads
     = Some [road 0 True 0 150, road 1 True 120 270, road 2 True 210 0]
   \<and> sorted (map angle [road 0 True 0 150, road 1 True 120 270, road 2 True 210 0])"
  using MergeSegregatedRoads_sorted
    [of "example_normalizer all_named detector_0_3 no_generator" 0 four_roads]
  by (simp add: MergeSegregatedRoads_def MergeSegregatedRoads_with_def merge_first_def merge_loop.simps CanMerge_def
        shift_left.simps example_normalizer_def all_named_def detector_0_3_def
        four_roads_def road_def merge_def combineAngles_def aroundZero_def
        angularDeviation_def getRight_def erase_def)

text \<open>
  Counterexample to C9 as stated: four roads at the strictly ascending angles 0, 10, 200 and 285, of
  which the second and third merge (to 200 + 170 / 2 = 285), give a result with two roads
  at the angle 285.
\<close>

theorem MergeSegregatedRoads_strict_counterexample:
  "MergeSegregatedRoads (example_normalizer all_named detector_2_1 no_generator) 0 strict_roads
     = Some [road 0 True 0 180, road 1 True 285 105, road 3 True 285 105]
   \<and> sorted_wrt (<) (map angle strict_roads)
   \<and> \<not> sorted_wrt (<)
         (map angle [road 0 True 0 180, road 1 True 285 105, road 3 True 285 105])"
  by (simp add: MergeSegregatedRoads_def MergeSegregatedRoads_with_def merge_first_def merge_loop.simps CanMerge_def
        example_normalizer_def all_named_def detector_2_1_def strict_roads_def road_def
        merge_def combineAngles_def aroundZero_def angularDeviation_def getRight_def erase_def)





text \<open>
  C1, as the code has it: for an intersection in ascending order of angle whose angles and
  bearings lie in the closed range \<open>[0, 360]\<close> (the predicate \<open>merge_asserts\<close>, which
  is what the assertions of \<^verbatim>\<open>merge\<close> state), and an intersection generator whose angles
  lie in that range, \<^verbatim>\<open>MergeSegregatedRoads\<close>, \<^verbatim>\<open>AdjustForJoiningRoads\<close> and their
  composition return, and every road they return has its angle and its bearing in
  \<open>[0, 360]\<close>. The bound 360 is attained: the merge step and \<^verbatim>\<open>adjustAngle\<close> subtract
  360 only from a value strictly above 360.
\<close>

theorem angles_stay_in_closed_range:
  assumes "sorted (map angle intersection)"
    and "\<forall>r \<in> set intersection. merge_asserts r"
    and "\<forall>n e. \<forall>r \<in> set (intersection_generator env n e). 0 \<le> angle r \<and> angle r \<le> 360"
  shows "(\<exists>merged. MergeSegregatedRoads env node intersection = Some merged
            \<and> (\<forall>r \<in> set merged. merge_asserts r))
         \<and> (\<exists>adjusted. AdjustForJoiningRoads env node intersection = Some adjusted
            \<and> (\<forall>r \<in> set adjusted. merge_asserts r))
         \<and> (\<exists>normalized. normalize env node intersection = Some normalized
            \<and> (\<forall>r \<in> set normalized. merge_asserts r))"
proof -
  from MergeSegregatedRoads_asserts [OF assms(1,2)]
  obtain merged where m: "MergeSegregatedRoads env node intersection = Some merged"
    "\<forall>r \<in> set merged. merge_asserts r" by blast
  from AdjustForJoiningRoads_asserts [OF m(2) assms(3)]
  obtain normalized where "AdjustForJoiningRoads env node merged = Some normalized"
    "\<forall>r \<in> set normalized. merge_asserts r" by blast
  with m AdjustForJoiningRoads_asserts [OF assms(2,3)] show ?thesis
    by (simp add: normalize_def)
qed

theorem angles_stay_in_closed_range_witness:
  "sorted (map angle wrap_roads)
   \<and> MergeSegregatedRoads (example_normalizer all_named detector_2_1 generator_right) 0 wrap_roads
       = Some [road 0 True 0 180, road 1 True 360 180]
   \<and> merge_asserts (road 1 True 360 180)"
proof -
  let ?env = "example_normalizer all_named detector_2_1 generator_right"
  have s: "sorted (map angle wrap_roads)"
    and r: "\<forall>r \<in> set wrap_roads. merge_asserts r"
    by (simp_all add: wrap_roads_def road_def merge_asserts_def)
  have g: "\<forall>n e. \<forall>r \<in> set (intersection_generator ?env n e). 0 \<le> angle r \<and> angle r \<le> 360"
    by (simp add: example_normalizer_def generator_right_def road_def)
  from angles_stay_in_closed_range [OF s r g, of 0] show ?thesis
    by (simp add: MergeSegregatedRoads_def MergeSegregatedRoads_with_def merge_first_def merge_loop.simps CanMerge_def
          example_normalizer_def all_named_def detector_2_1_def wrap_roads_def road_def
          merge_def combineAngles_def aroundZero_def angularDeviation_def getRight_def erase_def
          merge_asserts_def)
qed

text \<open>
  Counterexample to C1 as stated: merging the roads at the angles 10 and 350 gives a road
  at the angle 350 + 20 / 2 = 360, and shifting a road of bearing 355 by the offset 5 gives
  the bearing 360; neither is strictly below 360.
\<close>

theorem angles_below_360_counterexample:
  "MergeSegregatedRoads (example_normalizer all_named detector_2_1 generator_right) 0 wrap_roads
     = Some [road 0 True 0 180, road 1 True 360 180]
   \<and> AdjustForJoiningRoads (example_normalizer all_named detector_10_11 generator_right) 0
       bearing_roads
     = Some [road 0 True 0 180, road 1 True 105 360, road 2 True 205 95]
   \<and> \<not> angle (road 1 True 360 180) < 360
   \<and> \<not> bearing (road 1 True 105 360) < 360"
  by (simp add: MergeSegregatedRoads_def MergeSegregatedRoads_with_def merge_first_def merge_loop.simps CanMerge_def
        AdjustForJoiningRoads_def adjust_loop.simps adjust_road_def
        get_offset_def get_corrected_offset_def adjustAngle_def
        example_normalizer_def all_named_def detector_2_1_def detector_10_11_def
        generator_right_def wrap_roads_def bearing_roads_def road_def
        merge_def combineAngles_def aroundZero_def angularDeviation_def getRight_def erase_def)

section \<open>Properties of the adjustment for joining roads\<close>




text \<open>
  C8: \<^verbatim>\<open>AdjustForJoiningRoads\<close> returns an intersection of the same length, and the road
  at an index is unchanged in it whenever the intersection generated along its edge has at
  most one road, or the distance to the next node exceeds 30, or the next node has at most
  one adjacent edge (the third \<^verbatim>\<open>continue\<close> of the source), or the next intersection has
  at most one road besides its u-turn (no merge is possible there).
\<close>

theorem AdjustForJoiningRoads_skips:
  assumes "index < length intersection"
    and "length (intersection_generator env node (eid (intersection ! index))) \<le> 1
         \<or> haversineDistance env (node_coordinates env node)
              (node_coordinates env (GetTarget env (eid (intersection ! index)))) > 30
         \<or> length (GetAdjacentEdgeRange env (GetTarget env (eid (intersection ! index)))) \<le> 1
         \<or> length (intersection_generator env node (eid (intersection ! index))) \<le> 2"
  shows "\<exists>adjusted. AdjustForJoiningRoads env node intersection = Some adjusted
           \<and> length adjusted = length intersection
           \<and> adjusted ! index = intersection ! index"
proof -
  define P where "P (i::nat) ys \<longleftrightarrow>
      length ys = length intersection \<and> ys ! index = intersection ! index" for i ys
  have step: "P (Suc i) zs"
    if "P i ys" "adjust_road env node ys i = Some zs" for i ys zs
  proof (cases "i = index")
    case True
    with that(1) assms(2) have "skips env node (eid (ys ! i))
        \<or> length (intersection_generator env node (eid (ys ! i))) \<le> 2"
      by (auto simp: P_def skips_def)
    then have "adjust_road env node ys i = Some ys" by (rule adjust_road_skip)
    with that show ?thesis by (simp add: P_def)
  next
    case False
    with adjust_road_frame [OF that(2)] that(1) show ?thesis by (simp add: P_def)
  qed
  show ?thesis
  proof (cases "length intersection \<le> 1")
    case True
    then show ?thesis by (simp add: AdjustForJoiningRoads_def)
  next
    case False
    have "P 1 intersection" by (simp add: P_def)
    from adjust_loop_invariant [of P 1 intersection env node, OF this]
    obtain zs m where "adjust_loop env node 1 intersection = Some zs" "P m zs"
      using step by blast
    with False show ?thesis by (simp add: AdjustForJoiningRoads_def P_def)
  qed
qed

theorem AdjustForJoiningRoads_skips_witness:
  "length (intersection_generator
      (example_normalizer all_named detector_10_12 generator_dead_end_1) 0
      (eid (close_roads ! 1))) \<le> 1
   \<and> AdjustForJoiningRoads (example_normalizer all_named detector_10_12 generator_dead_end_1) 0
       close_roads = Some [road 0 True 0 180, road 1 True 100 280, road 2 True 102 282]"
proof -
  let ?env = "example_normalizer all_named detector_10_12 generator_dead_end_1"
  have i: "1 < length close_roads" by (simp add: close_roads_def)
  have g: "length (intersection_generator ?env 0 (eid (close_roads ! 1))) \<le> 1"
    by (simp add: example_normalizer_def generator_dead_end_1_def close_roads_def road_def)
  then have "length (intersection_generator ?env 0 (eid (close_roads ! 1))) \<le> 1
         \<or> haversineDistance ?env (node_coordinates ?env 0)
              (node_coordinates ?env (GetTarget ?env (eid (close_roads ! 1)))) > 30
         \<or> length (GetAdjacentEdgeRange ?env (GetTarget ?env (eid (close_roads ! 1)))) \<le> 1
         \<or> length (intersection_generator ?env 0 (eid (close_roads ! 1))) \<le> 2"
    by simp
  from g AdjustForJoiningRoads_skips [OF i this] show ?thesis
    by (simp add: AdjustForJoiningRoads_def adjust_loop.simps adjust_road_def CanMerge_def
          example_normalizer_def all_named_def detector_10_12_def generator_dead_end_1_def
          generator_left_def close_roads_def road_def get_offset_def get_corrected_offset_def
          adjustAngle_def angularDeviation_def)
qed

end
